theory Spec2Isabelle
  imports
    Main
    "HOL-Library.Word"
    "HOL-Library.Multiset"
    "HOL-Library.Char_ord"
    "HOL-Library.List_Lexorder"
begin

unbundle bit_operations_syntax

section \<open>Instances, errors and the library's sort\<close>

text \<open>
  The underlying value type \<open>TValue\<close> defaults to \<open>int\<close>, a 32-bit two's complement
  integer: \<open>&\<close>, \<open>|\<close>, \<open>~\<close> are the bitwise operations of the word, and \<open><\<close>,
  \<open>>\<close> are the signed comparisons.
\<close>

type_synonym value_t = "32 word"

text \<open>
  An instance has the two private fields \<open>name_\<close> and \<open>value_\<close>, read through
  \<open>Name()\<close> and \<open>Value()\<close>. The registries store \<open>const TEnum*\<close>; a pointer is
  modelled by the object it points to.
\<close>

record TEnum =
  Name :: string
  Value :: value_t

text \<open>
  The exceptions of the two headers. \<open>runtime_error\<close> is the duplicate-name failure of
  \<open>registerInstance\<close>, \<open>invalid_argument\<close> the empty-name failure of the constructors;
  the not-power-of-two exception carries the name of the flag its message quotes.
\<close>

datatype error =
    invalid_argument
  | runtime_error
  | SmartEnumNotFoundException
  | InvalidFlagEnumValueParseException
  | NegativeFlagValueNotAllowedException
  | SmartFlagEnumNotPowerOfTwoException string

text \<open>\<open>::tolower\<close> in the C locale, applied to every character by \<open>std::transform\<close>.\<close>

definition tolower :: "char \<Rightarrow> char" where
  "tolower c =
     (if CHR ''A'' \<le> c \<and> c \<le> CHR ''Z'' then char_of (of_char c + (32 :: nat)) else c)"

text \<open>
  \<open>std::sort(first, last, cmp)\<close> promises a permutation of the range in which no later
  element is \<open>cmp\<close>-before an earlier one; the order of equivalent elements is left to
  the implementation. The functions that sort take the implementation as a parameter
  and the theorems hold for every implementation that keeps the promise.
\<close>

definition is_std_sort ::
  "((TEnum \<Rightarrow> TEnum \<Rightarrow> bool) \<Rightarrow> TEnum list \<Rightarrow> TEnum list) \<Rightarrow>
   (TEnum \<Rightarrow> TEnum \<Rightarrow> bool) \<Rightarrow> bool" where
  "is_std_sort std_sort cmp \<longleftrightarrow>
     (\<forall>xs. mset (std_sort cmp xs) = mset xs \<and>
           sorted_wrt (\<lambda>a b. \<not> cmp b a) (std_sort cmp xs))"

text \<open>One implementation that keeps the promise: insertion sort.\<close>

fun insert_sorted ::
  "(TEnum \<Rightarrow> TEnum \<Rightarrow> bool) \<Rightarrow> TEnum \<Rightarrow> TEnum list \<Rightarrow> TEnum list" where
  "insert_sorted cmp x [] = [x]"
| "insert_sorted cmp x (y # ys) =
     (if cmp x y then x # y # ys else y # insert_sorted cmp x ys)"

definition insertion_sort ::
  "(TEnum \<Rightarrow> TEnum \<Rightarrow> bool) \<Rightarrow> TEnum list \<Rightarrow> TEnum list" where
  "insertion_sort cmp xs = foldr (insert_sorted cmp) xs []"

text \<open>
  A delete-expression whose operand is a null pointer has no effect; in particular
  it throws nothing, so the statement after it runs.
\<close>

definition delete_nullptr :: "error + unit" where
  "delete_nullptr = Inr ()"

section \<open>The registry shared by the enumeration templates\<close>

text \<open>
  The four function-local statics \<open>instances()\<close>, \<open>nameMap()\<close>,
  \<open>nameMapIgnoreCase()\<close> and \<open>valueMap()\<close> of one instantiation of a template.
\<close>

record registry =
  instances :: "TEnum list"
  nameMap :: "string \<rightharpoonup> TEnum"
  nameMapIgnoreCase :: "string \<rightharpoonup> TEnum"
  valueMap :: "value_t \<rightharpoonup> TEnum"

text \<open>
  \<open>registerInstance\<close> as \<open>SmartFlagEnum.hpp\<close> and the out-of-line \<open>SmartEnum.hpp\<close>
  have it: the duplicate check comes first, then the instance is appended and the three
  indices are updated; the case-folded and the value index keep their first entry.
  The argument is the \<open>this\<close> of a constructor, so the null check never fires.
\<close>

definition registerInstance ::
  "TEnum \<Rightarrow> 'a registry_scheme \<Rightarrow> (error + unit) \<times> 'a registry_scheme" where
  "registerInstance inst R =
     (let nm = Name inst in
      if nameMap R nm \<noteq> None then (Inl runtime_error, R)
      else
        let R1 = R\<lparr>instances := instances R @ [inst]\<rparr>;
            R2 = R1\<lparr>nameMap := (nameMap R1)(nm \<mapsto> inst)\<rparr>;
            lower = map tolower nm;
            R3 = (if nameMapIgnoreCase R2 lower = None
                  then R2\<lparr>nameMapIgnoreCase := (nameMapIgnoreCase R2)(lower \<mapsto> inst)\<rparr>
                  else R2);
            val = Value inst;
            R4 = (if valueMap R3 val = None
                  then R3\<lparr>valueMap := (valueMap R3)(val \<mapsto> inst)\<rparr>
                  else R3)
        in (Inr (), R4))"

section \<open>SmartFlagEnum\<close>

text \<open>
  The state of a flag type: whether the derived class lists the marker structs
  \<open>AllowNegativeFlagEnumInput\<close> and \<open>AllowUnsafeFlagEnumValues\<close> among its bases,
  the registry, and the static \<open>definitionsValidated()\<close>.
\<close>

record flag_type = registry +
  AllowNegativeFlagEnumInput :: bool
  AllowUnsafeFlagEnumValues :: bool
  definitionsValidated :: bool

definition new_flag_type :: "bool \<Rightarrow> bool \<Rightarrow> flag_type" where
  "new_flag_type allowNegative allowUnsafe =
     \<lparr>instances = [], nameMap = Map.empty, nameMapIgnoreCase = Map.empty,
      valueMap = Map.empty,
      AllowNegativeFlagEnumInput = allowNegative,
      AllowUnsafeFlagEnumValues = allowUnsafe,
      definitionsValidated = False\<rparr>"

text \<open>The protected constructor: an empty name is refused, then the instance registers.\<close>

definition SmartFlagEnum_ctor ::
  "string \<Rightarrow> value_t \<Rightarrow> flag_type \<Rightarrow> (error + TEnum) \<times> flag_type" where
  "SmartFlagEnum_ctor name val T =
     (if name = [] then (Inl invalid_argument, T)
      else case registerInstance \<lparr>Name = name, Value = val\<rparr> T of
             (Inl e, T') \<Rightarrow> (Inl e, T')
           | (Inr _, T') \<Rightarrow> (Inr \<lparr>Name = name, Value = val\<rparr>, T'))"

text \<open>
  The static initialisers of a derived class run the constructor once per declared
  instance, in declaration order. A constructor that throws leaves the registry as it
  was, so the declarations after it see the same state.
\<close>

definition declare_flags :: "bool \<Rightarrow> bool \<Rightarrow> (string \<times> value_t) list \<Rightarrow> flag_type" where
  "declare_flags allowNegative allowUnsafe decls =
     foldl (\<lambda>T (name, val). snd (SmartFlagEnum_ctor name val T))
       (new_flag_type allowNegative allowUnsafe) decls"

definition isPowerOfTwo :: "value_t \<Rightarrow> bool" where
  "isPowerOfTwo v \<longleftrightarrow> 0 <s v \<and> (v AND (v - 1)) = 0"

text \<open>
  The loop of \<open>enforceFlagDefinitions\<close>. At a value that is not a power of two the
  try block deletes a null pointer and breaks out of the loop; the handler that throws
  the not-power-of-two exception runs only if the try block throws.
\<close>

fun enforceFlagDefinitions_loop :: "TEnum list \<Rightarrow> error + unit" where
  "enforceFlagDefinitions_loop [] = Inr ()"
| "enforceFlagDefinitions_loop (inst # rest) =
     (if \<not> isPowerOfTwo (Value inst) then
        (case delete_nullptr of
           Inr _ \<Rightarrow> Inr ()
         | Inl _ \<Rightarrow> Inl (SmartFlagEnumNotPowerOfTwoException (Name inst)))
      else enforceFlagDefinitions_loop rest)"

definition enforceFlagDefinitions :: "flag_type \<Rightarrow> (error + unit) \<times> flag_type" where
  "enforceFlagDefinitions T =
     (if definitionsValidated T then (Inr (), T)
      else case enforceFlagDefinitions_loop (instances T) of
             Inl e \<Rightarrow> (Inl e, T)
           | Inr _ \<Rightarrow> (Inr (), T\<lparr>definitionsValidated := True\<rparr>))"

definition SmartFlagEnum_List :: "flag_type \<Rightarrow> (error + TEnum list) \<times> flag_type" where
  "SmartFlagEnum_List T =
     (case enforceFlagDefinitions T of
        (Inl e, T') \<Rightarrow> (Inl e, T')
      | (Inr _, T') \<Rightarrow> (Inr (instances T'), T'))"

definition fitsInDefinedFlags :: "flag_type \<Rightarrow> value_t \<Rightarrow> bool" where
  "fitsInDefinedFlags T input =
     (let allFlags = foldl (\<lambda>acc inst. acc OR Value inst) 0 (instances T)
      in (input AND NOT allFlags) = 0)"

text \<open>The comparator of the sort in \<open>TryFromValue\<close>: larger values first.\<close>

definition value_greater :: "TEnum \<Rightarrow> TEnum \<Rightarrow> bool" where
  "value_greater a b \<longleftrightarrow> Value b <s Value a"

text \<open>
  The range-for loop of \<open>TryFromValue\<close> over the sorted flags, on the pair of
  \<open>remainingValue\<close> and \<open>outResult\<close>; the \<open>break\<close> ends it once the remainder is zero.
\<close>

fun TryFromValue_loop ::
  "TEnum list \<Rightarrow> value_t \<Rightarrow> TEnum list \<Rightarrow> value_t \<times> TEnum list" where
  "TryFromValue_loop [] remainingValue outResult = (remainingValue, outResult)"
| "TryFromValue_loop (flag # rest) remainingValue outResult =
     (let flagValue = Value flag;
          (remainingValue', outResult') =
            (if (remainingValue AND flagValue) = flagValue
             then (remainingValue AND NOT flagValue, outResult @ [flag])
             else (remainingValue, outResult))
      in if remainingValue' = 0 then (remainingValue', outResult')
         else TryFromValue_loop rest remainingValue' outResult')"

text \<open>
  \<open>TryFromValue\<close> returns the success flag and the output slot \<open>outResult\<close>. For a
  negative value without an exact match the try block deletes a null pointer and
  returns false; its handler would throw the negative-value exception.
\<close>

definition SmartFlagEnum_TryFromValue ::
  "((TEnum \<Rightarrow> TEnum \<Rightarrow> bool) \<Rightarrow> TEnum list \<Rightarrow> TEnum list) \<Rightarrow>
   value_t \<Rightarrow> flag_type \<Rightarrow> (error + bool \<times> TEnum list) \<times> flag_type" where
  "SmartFlagEnum_TryFromValue std_sort val T =
     (case enforceFlagDefinitions T of
        (Inl e, T1) \<Rightarrow> (Inl e, T1)
      | (Inr _, T1) \<Rightarrow>
          (case valueMap T1 val of
             Some inst \<Rightarrow> (Inr (True, [inst]), T1)
           | None \<Rightarrow>
               if val <s 0 then
                 (case delete_nullptr of
                    Inr _ \<Rightarrow> (Inr (False, []), T1)
                  | Inl _ \<Rightarrow> (Inl NegativeFlagValueNotAllowedException, T1))
               else if fitsInDefinedFlags T1 val then
                 (case SmartFlagEnum_List T1 of
                    (Inl e, T2) \<Rightarrow> (Inl e, T2)
                  | (Inr allFlags, T2) \<Rightarrow>
                      (case TryFromValue_loop (std_sort value_greater allFlags) val [] of
                         (remainingValue, outResult) \<Rightarrow>
                           (Inr (remainingValue = 0, outResult), T2)))
               else (Inr (False, []), T1)))"

definition SmartFlagEnum_FromValue ::
  "((TEnum \<Rightarrow> TEnum \<Rightarrow> bool) \<Rightarrow> TEnum list \<Rightarrow> TEnum list) \<Rightarrow>
   value_t \<Rightarrow> flag_type \<Rightarrow> (error + TEnum list) \<times> flag_type" where
  "SmartFlagEnum_FromValue std_sort val T =
     (case SmartFlagEnum_TryFromValue std_sort val T of
        (Inl e, T') \<Rightarrow> (Inl e, T')
      | (Inr (ok, result), T') \<Rightarrow>
          if \<not> ok then (Inl InvalidFlagEnumValueParseException, T')
          else (Inr result, T'))"

text \<open>The loop of \<open>TryFromValueToString\<close>: the names, with \<open>", "\<close> before all but the first.\<close>

fun join_names :: "TEnum list \<Rightarrow> string" where
  "join_names [] = []"
| "join_names [flag] = Name flag"
| "join_names (flag # rest) = Name flag @ '', '' @ join_names rest"

text \<open>
  \<open>TryFromValueToString\<close> writes the output slot \<open>outStr\<close> only when it succeeds;
  \<open>FromValueToString\<close> passes it an empty string.
\<close>

definition SmartFlagEnum_TryFromValueToString ::
  "((TEnum \<Rightarrow> TEnum \<Rightarrow> bool) \<Rightarrow> TEnum list \<Rightarrow> TEnum list) \<Rightarrow>
   value_t \<Rightarrow> string \<Rightarrow> flag_type \<Rightarrow> (error + bool \<times> string) \<times> flag_type" where
  "SmartFlagEnum_TryFromValueToString std_sort val outStr T =
     (case SmartFlagEnum_TryFromValue std_sort val T of
        (Inl e, T') \<Rightarrow> (Inl e, T')
      | (Inr (ok, flags), T') \<Rightarrow>
          if \<not> ok then (Inr (False, outStr), T')
          else (Inr (True, join_names flags), T'))"

definition SmartFlagEnum_FromValueToString ::
  "((TEnum \<Rightarrow> TEnum \<Rightarrow> bool) \<Rightarrow> TEnum list \<Rightarrow> TEnum list) \<Rightarrow>
   value_t \<Rightarrow> flag_type \<Rightarrow> (error + string) \<times> flag_type" where
  "SmartFlagEnum_FromValueToString std_sort val T =
     (case SmartFlagEnum_TryFromValueToString std_sort val [] T of
        (Inl e, T') \<Rightarrow> (Inl e, T')
      | (Inr (ok, result), T') \<Rightarrow>
          if \<not> ok then (Inl InvalidFlagEnumValueParseException, T')
          else (Inr result, T'))"

section \<open>SmartEnum\<close>

text \<open>
  The repository holds two versions of \<open>SmartEnum.hpp\<close>. The one under
  \<open>include/\<close> defines its members in the class body; the other defines them out of
  line and shares the text of \<open>registerInstance\<close> with \<open>SmartFlagEnum.hpp\<close>. The
  definitions of the second carry the suffix \<open>_out_of_line\<close>.
\<close>

text \<open>
  The state of an enumeration type of \<open>include/SmartEnum.hpp\<close>: the registry and the
  \<open>std::once_flag\<close> of \<open>List\<close>, true once \<open>std::call_once\<close> has run its argument.
\<close>

record smart_enum = registry +
  listInitFlag :: bool

definition new_smart_enum :: smart_enum where
  "new_smart_enum =
     \<lparr>instances = [], nameMap = Map.empty, nameMapIgnoreCase = Map.empty,
      valueMap = Map.empty, listInitFlag = False\<rparr>"

text \<open>
  \<open>registerInstance\<close> of \<open>include/SmartEnum.hpp\<close> appends the instance before it
  checks the name, so the pointer stays in \<open>instances()\<close> when the check throws.
\<close>

definition SmartEnum_registerInstance ::
  "TEnum \<Rightarrow> 'a registry_scheme \<Rightarrow> (error + unit) \<times> 'a registry_scheme" where
  "SmartEnum_registerInstance inst R =
     (let R1 = R\<lparr>instances := instances R @ [inst]\<rparr>;
          nm = Name inst
      in if nameMap R1 nm \<noteq> None then (Inl runtime_error, R1)
      else
        let R2 = R1\<lparr>nameMap := (nameMap R1)(nm \<mapsto> inst)\<rparr>;
            lower = map tolower nm;
            R3 = (if nameMapIgnoreCase R2 lower = None
                  then R2\<lparr>nameMapIgnoreCase := (nameMapIgnoreCase R2)(lower \<mapsto> inst)\<rparr>
                  else R2);
            val = Value inst;
            R4 = (if valueMap R3 val = None
                  then R3\<lparr>valueMap := (valueMap R3)(val \<mapsto> inst)\<rparr>
                  else R3)
        in (Inr (), R4))"

definition SmartEnum_ctor ::
  "string \<Rightarrow> value_t \<Rightarrow> smart_enum \<Rightarrow> (error + TEnum) \<times> smart_enum" where
  "SmartEnum_ctor name val R =
     (if name = [] then (Inl invalid_argument, R)
      else case SmartEnum_registerInstance \<lparr>Name = name, Value = val\<rparr> R of
             (Inl e, R') \<Rightarrow> (Inl e, R')
           | (Inr _, R') \<Rightarrow> (Inr \<lparr>Name = name, Value = val\<rparr>, R'))"

definition SmartEnum_ctor_out_of_line ::
  "string \<Rightarrow> value_t \<Rightarrow> smart_enum \<Rightarrow> (error + TEnum) \<times> smart_enum" where
  "SmartEnum_ctor_out_of_line name val R =
     (if name = [] then (Inl invalid_argument, R)
      else case registerInstance \<lparr>Name = name, Value = val\<rparr> R of
             (Inl e, R') \<Rightarrow> (Inl e, R')
           | (Inr _, R') \<Rightarrow> (Inr \<lparr>Name = name, Value = val\<rparr>, R'))"

text \<open>
  The constructor calls of a derived class, in declaration order, starting from the empty
  registry: the result is the list of the instances whose constructor returned, in that
  order, and the state of the type. An instance whose constructor throws is not kept.
\<close>

definition construct ::
  "(string \<Rightarrow> value_t \<Rightarrow> smart_enum \<Rightarrow> (error + TEnum) \<times> smart_enum) \<Rightarrow>
   TEnum list \<times> smart_enum \<Rightarrow> string \<times> value_t \<Rightarrow> TEnum list \<times> smart_enum" where
  "construct ctor s d =
     (case ctor (fst d) (snd d) (snd s) of
        (Inl e, R') \<Rightarrow> (fst s, R')
      | (Inr x, R') \<Rightarrow> (fst s @ [x], R'))"

definition declare_enum :: "(string \<times> value_t) list \<Rightarrow> TEnum list \<times> smart_enum" where
  "declare_enum decls = foldl (construct SmartEnum_ctor) ([], new_smart_enum) decls"

definition declare_enum_out_of_line ::
  "(string \<times> value_t) list \<Rightarrow> TEnum list \<times> smart_enum" where
  "declare_enum_out_of_line decls =
     foldl (construct SmartEnum_ctor_out_of_line) ([], new_smart_enum) decls"

text \<open>The comparator of the sort in \<open>List\<close>: \<open>std::string\<close>'s \<open><\<close> on the names.\<close>

definition name_less :: "TEnum \<Rightarrow> TEnum \<Rightarrow> bool" where
  "name_less a b \<longleftrightarrow> Name a < Name b"

text \<open>
  \<open>List\<close> of \<open>include/SmartEnum.hpp\<close>: the first call sorts \<open>instances()\<close> in place
  by name, every call returns \<open>instances()\<close>.
\<close>

definition SmartEnum_List ::
  "((TEnum \<Rightarrow> TEnum \<Rightarrow> bool) \<Rightarrow> TEnum list \<Rightarrow> TEnum list) \<Rightarrow>
   smart_enum \<Rightarrow> TEnum list \<times> smart_enum" where
  "SmartEnum_List std_sort R =
     (let R' = (if listInitFlag R then R
                else R\<lparr>instances := std_sort name_less (instances R), listInitFlag := True\<rparr>)
      in (instances R', R'))"

text \<open>\<open>List\<close> of the out-of-line version returns \<open>instances()\<close> as it is.\<close>

definition SmartEnum_List_out_of_line :: "smart_enum \<Rightarrow> TEnum list" where
  "SmartEnum_List_out_of_line R = instances R"

text \<open>The lookups of \<open>include/SmartEnum.hpp\<close>; a null result is \<open>None\<close>.\<close>

definition TryFromNameInternal :: "string \<Rightarrow> bool \<Rightarrow> smart_enum \<Rightarrow> TEnum option" where
  "TryFromNameInternal name ignoreCase R =
     (if name = [] then None
      else if \<not> ignoreCase then nameMap R name
      else nameMapIgnoreCase R (map tolower name))"

definition TryFromValueInternal :: "value_t \<Rightarrow> smart_enum \<Rightarrow> TEnum option" where
  "TryFromValueInternal val R = valueMap R val"

definition SmartEnum_FromName :: "string \<Rightarrow> bool \<Rightarrow> smart_enum \<Rightarrow> error + TEnum" where
  "SmartEnum_FromName name ignoreCase R =
     (case TryFromNameInternal name ignoreCase R of
        None \<Rightarrow> Inl SmartEnumNotFoundException
      | Some result \<Rightarrow> Inr result)"

definition SmartEnum_FromValue :: "value_t \<Rightarrow> smart_enum \<Rightarrow> error + TEnum" where
  "SmartEnum_FromValue val R =
     (case TryFromValueInternal val R of
        None \<Rightarrow> Inl SmartEnumNotFoundException
      | Some result \<Rightarrow> Inr result)"

section \<open>The types of the test suite and of the examples\<close>

text \<open>The flag types \<open>Flags\<close> and \<open>NoNegFlags\<close> and the enumeration \<open>TestEnum\<close> of the tests.\<close>

definition Flags :: flag_type where
  "Flags = declare_flags True False
     [(''None'', 0), (''A'', 1), (''B'', 2), (''C'', 4), (''AB'', 3), (''All'', - 1)]"

definition NoNegFlags :: flag_type where
  "NoNegFlags = declare_flags False False [(''X'', 1), (''Y'', 2)]"

definition TestEnum :: "TEnum list \<times> smart_enum" where
  "TestEnum = declare_enum [(''One'', 1), (''Two'', 2), (''Three'', 3)]"

text \<open>
  Strict flag types (neither marker) with the values 1, 2, 4, with the values 1, 3, and
  with the values 1, 4; a flag type with the negative-input marker and the values 1, 2;
  an enumeration whose two instances share the value 1.
\<close>

definition ABC :: flag_type where
  "ABC = declare_flags False False [(''A'', 1), (''B'', 2), (''C'', 4)]"

definition A1_B3 :: flag_type where
  "A1_B3 = declare_flags False False [(''A'', 1), (''B'', 3)]"

definition A1_C4 :: flag_type where
  "A1_C4 = declare_flags False False [(''A'', 1), (''C'', 4)]"

definition Negative_A1_B2 :: flag_type where
  "Negative_A1_B2 = declare_flags True False [(''A'', 1), (''B'', 2)]"

definition X1_Y1 :: "TEnum list \<times> smart_enum" where
  "X1_Y1 = declare_enum [(''X'', 1), (''Y'', 1)]"

section \<open>Invariants of the registries\<close>

text \<open>
  The name index and the value index of a registry hold, for every key, the first
  instance of the list with that key.
\<close>

definition indexed :: "'a registry_scheme \<Rightarrow> bool" where
  "indexed R \<longleftrightarrow>
     (\<forall>v. valueMap R v = find (\<lambda>i. Value i = v) (instances R)) \<and>
     (\<forall>n. nameMap R n = find (\<lambda>i. Name i = n) (instances R))"

text \<open>
  The same for \<open>include/SmartEnum.hpp\<close>, over the instances whose constructor returned;
  their names are distinct and not empty.
\<close>

definition enum_indexed :: "TEnum list \<times> 'a registry_scheme \<Rightarrow> bool" where
  "enum_indexed s \<longleftrightarrow>
     (\<forall>n. nameMap (snd s) n = find (\<lambda>y. Name y = n) (fst s)) \<and>
     (\<forall>v. valueMap (snd s) v = find (\<lambda>y. Value y = v) (fst s)) \<and>
     distinct (map Name (fst s)) \<and> (\<forall>y \<in> set (fst s). Name y \<noteq> [])"

section \<open>Evaluation and the sort\<close>

lemmas flag_eval =
  declare_flags_def new_flag_type_def SmartFlagEnum_ctor_def registerInstance_def
  tolower_def Let_def

lemmas enum_eval =
  declare_enum_def declare_enum_out_of_line_def construct_def SmartEnum_ctor_def
  SmartEnum_ctor_out_of_line_def SmartEnum_registerInstance_def registerInstance_def
  new_smart_enum_def tolower_def Let_def

lemma mset_insert_sorted: "mset (insert_sorted cmp x ys) = add_mset x (mset ys)"
  by (induction ys) simp_all

lemma set_insert_sorted: "set (insert_sorted cmp x ys) = insert x (set ys)"
  using mset_insert_sorted [of cmp x ys, THEN arg_cong, of set_mset] by simp

lemma sorted_insert_sorted:
  assumes asym: "\<And>a b. cmp a b \<Longrightarrow> \<not> cmp b a"
      and negtrans: "\<And>a b c. \<not> cmp a b \<Longrightarrow> \<not> cmp b c \<Longrightarrow> \<not> cmp a c"
  shows "sorted_wrt (\<lambda>a b. \<not> cmp b a) ys \<Longrightarrow>
         sorted_wrt (\<lambda>a b. \<not> cmp b a) (insert_sorted cmp x ys)"
proof (induction ys)
  case Nil
  then show ?case by simp
next
  case (Cons y ys)
  show ?case
  proof (cases "cmp x y")
    case True
    then have "\<not> cmp y x" by (rule asym)
    moreover have "\<not> cmp z x" if "z \<in> set ys" for z
      using that Cons.prems \<open>\<not> cmp y x\<close> negtrans [of z y x] by auto
    ultimately show ?thesis using True Cons.prems by auto
  next
    case False
    then show ?thesis using Cons by (auto simp: set_insert_sorted)
  qed
qed

lemma insertion_sort_is_std_sort:
  assumes asym: "\<And>a b. cmp a b \<Longrightarrow> \<not> cmp b a"
      and negtrans: "\<And>a b c. \<not> cmp a b \<Longrightarrow> \<not> cmp b c \<Longrightarrow> \<not> cmp a c"
  shows "is_std_sort insertion_sort cmp"
proof -
  have "mset (insertion_sort cmp xs) = mset xs \<and>
        sorted_wrt (\<lambda>a b. \<not> cmp b a) (insertion_sort cmp xs)" for xs
    unfolding insertion_sort_def
    by (induction xs) (simp_all add: mset_insert_sorted sorted_insert_sorted [OF asym negtrans])
  then show ?thesis by (simp add: is_std_sort_def)
qed

lemma insertion_sort_value_greater: "is_std_sort insertion_sort value_greater"
  by (rule insertion_sort_is_std_sort) (auto simp: value_greater_def)

lemma insertion_sort_name_less: "is_std_sort insertion_sort name_less"
  by (rule insertion_sort_is_std_sort) (auto simp: name_less_def)

lemma std_sort_set: "is_std_sort std_sort cmp \<Longrightarrow> set (std_sort cmp xs) = set xs"
  by (metis is_std_sort_def mset_eq_setD)

lemma std_sort_sorted:
  "is_std_sort std_sort cmp \<Longrightarrow> sorted_wrt (\<lambda>a b. \<not> cmp b a) (std_sort cmp xs)"
  by (simp add: is_std_sort_def)

text \<open>Two sorted permutations agree when no two distinct elements are equivalent.\<close>

lemma sorted_wrt_unique:
  assumes "mset ys = mset xs"
      and "sorted_wrt R ys"
      and "sorted_wrt R xs"
      and "\<And>a b. a \<in> set xs \<Longrightarrow> b \<in> set xs \<Longrightarrow> R a b \<Longrightarrow> R b a \<Longrightarrow> a = b"
  shows "ys = xs"
  using assms
proof (induction xs arbitrary: ys)
  case Nil
  then show ?case by simp
next
  case (Cons x xs)
  from Cons.prems(1) obtain y ys' where ys: "ys = y # ys'"
    by (cases ys) auto
  have st: "set ys = set (x # xs)" using Cons.prems(1) by (rule mset_eq_setD)
  have "x = y"
  proof (rule ccontr)
    assume ne: "x \<noteq> y"
    with st ys have "x \<in> set ys'" and "y \<in> set xs" by auto
    then have "R y x" and "R x y" using Cons.prems(2,3) ys by auto
    moreover have "x \<in> set (x # xs)" and "y \<in> set (x # xs)"
      using \<open>y \<in> set xs\<close> by auto
    ultimately show False using Cons.prems(4) ne by blast
  qed
  moreover have "ys' = xs"
  proof (rule Cons.IH)
    show "mset ys' = mset xs" using Cons.prems(1) ys \<open>x = y\<close> by simp
    show "sorted_wrt R ys'" using Cons.prems(2) ys by simp
    show "sorted_wrt R xs" using Cons.prems(3) by simp
    show "\<And>a b. a \<in> set xs \<Longrightarrow> b \<in> set xs \<Longrightarrow> R a b \<Longrightarrow> R b a \<Longrightarrow> a = b"
      using Cons.prems(4) by simp
  qed
  ultimately show ?case using ys by simp
qed

section \<open>Powers of two\<close>

lemma pow2_nat: "0 < n \<Longrightarrow> n AND (n - 1) = 0 \<Longrightarrow> \<exists>k. n = 2 ^ k" for n :: nat
proof (induction n rule: less_induct)
  case (less n)
  show ?case
  proof (cases "even n")
    case True
    then obtain m where m: "n = 2 * m" by (auto elim: evenE)
    with less.prems have mpos: "0 < m" by simp
    have "n - 1 = 2 * (m - 1) + 1" using m mpos by simp
    then have "n AND (n - 1) = 2 * (m AND (m - 1))"
      using m by (subst and_nat_rec) simp
    with less.prems have "m AND (m - 1) = 0" by simp
    moreover have "m < n" using m mpos by simp
    ultimately obtain k where "m = 2 ^ k" using less.IH mpos by blast
    then have "n = 2 ^ Suc k" using m by simp
    then show ?thesis by blast
  next
    case False
    then obtain m where m: "n = 2 * m + 1" by (auto elim: oddE)
    then have "n AND (n - 1) = 2 * m"
      by (subst and_nat_rec) simp
    with less.prems have "m = 0" by simp
    then have "n = 2 ^ 0" using m by simp
    then show ?thesis by blast
  qed
qed

lemma isPowerOfTwo_exp:
  assumes "isPowerOfTwo p"
  shows "\<exists>k. p = 2 ^ k"
proof -
  from assms have nz: "p \<noteq> 0" and z: "p AND (p - 1) = 0"
    by (auto simp: isPowerOfTwo_def word_sless_alt)
  have "unat p AND (unat p - 1) = unat (p AND (p - 1))"
    using nz by (simp add: unsigned_and_eq unat_minus_one)
  with z have "unat p AND (unat p - 1) = 0" by simp
  moreover have "0 < unat p" using nz by (simp add: unat_gt_0)
  ultimately obtain k where "unat p = 2 ^ k" using pow2_nat by blast
  then have "word_of_nat (unat p) = (word_of_nat (2 ^ k) :: value_t)" by simp
  then have "p = 2 ^ k" by simp
  then show ?thesis by blast
qed

lemma isPowerOfTwo_and: "isPowerOfTwo p \<Longrightarrow> r AND p = p \<or> r AND p = 0"
proof -
  assume "isPowerOfTwo p"
  then obtain k where p: "p = 2 ^ k" using isPowerOfTwo_exp by blast
  show ?thesis
  proof (cases "bit r k")
    case True
    have "r AND 2 ^ k = 2 ^ k"
      by (rule bit_eqI) (use True in \<open>auto simp: bit_simps\<close>)
    then show ?thesis using p by simp
  next
    case False
    then have "r AND 2 ^ k = 0" by (simp add: and_exp_eq_0_iff_not_bit)
    then show ?thesis using p by simp
  qed
qed

lemma and_not_absorb: "x AND p = 0 \<Longrightarrow> x AND NOT p = x" for x :: value_t
  by (auto simp: bit_eq_iff bit_simps)

lemma sub_and_not_left: "r AND NOT (x AND NOT p) = 0 \<Longrightarrow> r AND NOT x = 0" for r :: value_t
  by (auto simp: bit_eq_iff bit_simps)

lemma sub_and_not_right: "r AND NOT (x AND NOT p) = 0 \<Longrightarrow> r AND p = 0" for r :: value_t
  by (auto simp: bit_eq_iff bit_simps)

lemma covered_remainder_zero:
  assumes "r AND NOT v = 0" and "v AND NOT a = 0" and "r AND a = 0"
  shows "r = (0 :: value_t)"
  using assms by (auto simp: bit_eq_iff bit_simps)

section \<open>The flag registry and the validator\<close>

lemma find_snoc:
  "find P (xs @ [x]) =
     (case find P xs of Some y \<Rightarrow> Some y | None \<Rightarrow> if P x then Some x else None)"
  by (induction xs) simp_all

lemma indexed_registerInstance: "indexed R \<Longrightarrow> indexed (snd (registerInstance x R))"
  by (auto simp: indexed_def registerInstance_def Let_def find_snoc split: option.splits)

lemma indexed_ctor: "indexed T \<Longrightarrow> indexed (snd (SmartFlagEnum_ctor n v T))"
  using indexed_registerInstance [of T "\<lparr>Name = n, Value = v\<rparr>"]
  by (auto simp: SmartFlagEnum_ctor_def split: prod.splits sum.splits)

lemma indexed_foldl_ctor:
  "indexed T \<Longrightarrow>
   indexed (foldl (\<lambda>T (name, val). snd (SmartFlagEnum_ctor name val T)) T decls)"
  by (induction decls arbitrary: T) (auto simp: indexed_ctor split: prod.splits)

lemma indexed_declare_flags: "indexed (declare_flags neg unsafe decls)"
  unfolding declare_flags_def
  by (rule indexed_foldl_ctor) (simp add: indexed_def new_flag_type_def)

lemma valueMap_declare_flags:
  "valueMap (declare_flags neg unsafe decls) v =
     find (\<lambda>i. Value i = v) (instances (declare_flags neg unsafe decls))"
  using indexed_declare_flags by (simp add: indexed_def)

text \<open>
  On every list the loop returns: at the first value that is not a power of two the
  deletion of the null pointer does nothing and the \<open>break\<close> follows.
\<close>

lemma enforceFlagDefinitions_loop_returns: "enforceFlagDefinitions_loop xs = Inr ()"
  by (induction xs) (simp_all add: delete_nullptr_def)

lemma enforceFlagDefinitions_returns:
  "enforceFlagDefinitions T = (Inr (), T\<lparr>definitionsValidated := True\<rparr>)"
  by (simp add: enforceFlagDefinitions_def enforceFlagDefinitions_loop_returns)

lemma fitsInDefinedFlags_validated [simp]:
  "fitsInDefinedFlags (T\<lparr>definitionsValidated := b\<rparr>) v = fitsInDefinedFlags T v"
  by (simp add: fitsInDefinedFlags_def)

lemma TryFromValue_unfold:
  "SmartFlagEnum_TryFromValue std_sort v T =
     (case valueMap T v of
        Some i \<Rightarrow> (Inr (True, [i]), T\<lparr>definitionsValidated := True\<rparr>)
      | None \<Rightarrow>
          if v <s 0 then (Inr (False, []), T\<lparr>definitionsValidated := True\<rparr>)
          else if fitsInDefinedFlags T v then
            (Inr (fst (TryFromValue_loop (std_sort value_greater (instances T)) v []) = 0,
                  snd (TryFromValue_loop (std_sort value_greater (instances T)) v [])),
             T\<lparr>definitionsValidated := True\<rparr>)
          else (Inr (False, []), T\<lparr>definitionsValidated := True\<rparr>))"
  by (simp add: SmartFlagEnum_TryFromValue_def enforceFlagDefinitions_returns
      SmartFlagEnum_List_def delete_nullptr_def split: option.splits prod.splits)

lemma FromValue_unfold:
  "SmartFlagEnum_FromValue std_sort v T =
     (case SmartFlagEnum_TryFromValue std_sort v T of
        (Inl e, T') \<Rightarrow> (Inl e, T')
      | (Inr (ok, result), T') \<Rightarrow>
          if ok then (Inr result, T') else (Inl InvalidFlagEnumValueParseException, T'))"
  by (simp add: SmartFlagEnum_FromValue_def split: prod.splits sum.splits)

lemma FromValueToString_of_FromValue:
  "SmartFlagEnum_FromValue std_sort v T = (Inr result, T') \<Longrightarrow>
   SmartFlagEnum_FromValueToString std_sort v T = (Inr (join_names result), T')"
  by (auto simp: SmartFlagEnum_FromValue_def SmartFlagEnum_FromValueToString_def
      SmartFlagEnum_TryFromValueToString_def split: prod.splits sum.splits if_splits)

section \<open>The decomposition loop\<close>

lemma TryFromValue_loop_sorted:
  "sorted_wrt P (out @ fl) \<Longrightarrow> sorted_wrt P (snd (TryFromValue_loop fl rem out))"
proof (induction fl arbitrary: rem out)
  case Nil
  then show ?case by simp
next
  case (Cons flag rest)
  from Cons.prems have 1: "sorted_wrt P ((out @ [flag]) @ rest)" by simp
  from Cons.prems have 2: "sorted_wrt P (out @ rest)" by (auto simp: sorted_wrt_append)
  from Cons.prems have 3: "sorted_wrt P (out @ [flag])" by (auto simp: sorted_wrt_append)
  from Cons.prems have 4: "sorted_wrt P out" by (auto simp: sorted_wrt_append)
  show ?case
    using Cons.IH [OF 1] Cons.IH [OF 2] 3 4 by (simp add: Let_def)
qed

lemma TryFromValue_loop_zero:
  "\<forall>f \<in> set fl. Value f \<noteq> 0 \<Longrightarrow> TryFromValue_loop fl 0 [] = (0, [])"
  by (cases fl) (auto simp: Let_def)

text \<open>A flag that is zero or a single bit leaves the remainder without its bit, taken or not.\<close>

lemma TryFromValue_loop_step:
  assumes "Value flag = 0 \<or> isPowerOfTwo (Value flag)"
  shows "TryFromValue_loop (flag # rest) rem out =
      (if rem AND NOT (Value flag) = 0
       then (rem AND NOT (Value flag),
             if rem AND Value flag = Value flag then out @ [flag] else out)
       else TryFromValue_loop rest (rem AND NOT (Value flag))
              (if rem AND Value flag = Value flag then out @ [flag] else out))"
proof (cases "rem AND Value flag = Value flag")
  case True
  then show ?thesis by simp
next
  case False
  then have nz: "Value flag \<noteq> 0" by auto
  with assms have "isPowerOfTwo (Value flag)" by simp
  then have "rem AND Value flag = Value flag \<or> rem AND Value flag = 0"
    by (rule isPowerOfTwo_and)
  with False have "rem AND Value flag = 0" by simp
  then have "rem AND NOT (Value flag) = rem" by (rule and_not_absorb)
  with False nz show ?thesis by simp
qed

lemma TryFromValue_loop_remainder:
  assumes "\<forall>f \<in> set fl. Value f = 0 \<or> isPowerOfTwo (Value f)"
  shows "fst (TryFromValue_loop fl rem out) = 0 \<or>
         (fst (TryFromValue_loop fl rem out) AND NOT rem = 0 \<and>
          (\<forall>f \<in> set fl. fst (TryFromValue_loop fl rem out) AND Value f = 0))"
  using assms
proof (induction fl arbitrary: rem out)
  case Nil
  then show ?case by simp
next
  case (Cons flag rest)
  define rem' where "rem' = rem AND NOT (Value flag)"
  define out' where "out' = (if rem AND Value flag = Value flag then out @ [flag] else out)"
  from Cons.prems have "Value flag = 0 \<or> isPowerOfTwo (Value flag)" by simp
  then have unfold: "TryFromValue_loop (flag # rest) rem out =
      (if rem' = 0 then (rem', out') else TryFromValue_loop rest rem' out')"
    unfolding rem'_def out'_def by (rule TryFromValue_loop_step)
  show ?case
  proof (cases "rem' = 0")
    case True
    then show ?thesis by (simp only: unfold) simp
  next
    case False
    define r where "r = fst (TryFromValue_loop rest rem' out')"
    have res: "fst (TryFromValue_loop (flag # rest) rem out) = r"
      using False by (simp only: unfold r_def) simp
    from Cons.prems have "\<forall>f \<in> set rest. Value f = 0 \<or> isPowerOfTwo (Value f)" by simp
    from Cons.IH [OF this, of rem' out']
    have ih: "r = 0 \<or> (r AND NOT rem' = 0 \<and> (\<forall>f \<in> set rest. r AND Value f = 0))"
      by (simp only: r_def)
    show ?thesis
    proof (cases "r = 0")
      case True
      then show ?thesis by (simp only: res) simp
    next
      case False
      with ih have sub: "r AND NOT rem' = 0" and dis: "\<forall>f \<in> set rest. r AND Value f = 0"
        by simp_all
      from sub have "r AND NOT rem = 0" unfolding rem'_def by (rule sub_and_not_left)
      moreover from sub have "r AND Value flag = 0" unfolding rem'_def by (rule sub_and_not_right)
      ultimately show ?thesis using dis by (simp only: res) simp
    qed
  qed
qed

lemma foldl_OR_acc:
  "foldl (\<lambda>acc inst. acc OR Value inst) a xs =
   a OR foldl (\<lambda>acc inst. acc OR Value inst) 0 xs"
proof (induction xs arbitrary: a)
  case Nil
  then show ?case by simp
next
  case (Cons x xs)
  show ?case
    using Cons [of "a OR Value x"] Cons [of "Value x"] by (simp add: ac_simps)
qed

lemma disjoint_allFlags:
  "\<forall>f \<in> set xs. r AND Value f = 0 \<Longrightarrow>
   r AND foldl (\<lambda>acc inst. acc OR Value inst) 0 xs = 0"
proof (induction xs)
  case Nil
  then show ?case by simp
next
  case (Cons x xs)
  then show ?case
    by (simp add: foldl_OR_acc [of "Value x"] bit.conj_disj_distrib)
qed

lemma greedy_remainder_zero:
  assumes srt: "is_std_sort std_sort value_greater"
      and p2: "\<forall>i \<in> set (instances T). Value i = 0 \<or> isPowerOfTwo (Value i)"
      and fits: "fitsInDefinedFlags T v"
  shows "fst (TryFromValue_loop (std_sort value_greater (instances T)) v []) = 0"
proof -
  let ?fl = "std_sort value_greater (instances T)"
  let ?r = "fst (TryFromValue_loop ?fl v [])"
  let ?all = "foldl (\<lambda>acc inst. acc OR Value inst) 0 (instances T)"
  have set_eq: "set ?fl = set (instances T)" using srt by (rule std_sort_set)
  with p2 have "\<forall>f \<in> set ?fl. Value f = 0 \<or> isPowerOfTwo (Value f)" by simp
  then have "?r = 0 \<or> (?r AND NOT v = 0 \<and> (\<forall>f \<in> set ?fl. ?r AND Value f = 0))"
    by (rule TryFromValue_loop_remainder)
  moreover have "?r = 0"
    if sub: "?r AND NOT v = 0" and dis: "\<forall>f \<in> set ?fl. ?r AND Value f = 0"
  proof -
    from dis set_eq have "\<forall>f \<in> set (instances T). ?r AND Value f = 0" by simp
    then have "?r AND ?all = 0" by (rule disjoint_allFlags)
    moreover from fits have "v AND NOT ?all = 0" by (simp add: fitsInDefinedFlags_def)
    ultimately show ?thesis using sub covered_remainder_zero by blast
  qed
  ultimately show ?thesis by blast
qed

lemma decomposition_descending:
  assumes "is_std_sort std_sort value_greater"
      and "valueMap T v = None"
      and "SmartFlagEnum_FromValue std_sort v T = (Inr result, T')"
  shows "sorted_wrt (\<lambda>a b. Value b \<le>s Value a) result"
proof -
  have s: "sorted_wrt (\<lambda>a b. \<not> value_greater b a)
             ([] @ std_sort value_greater (instances T))"
    using assms(1) by (simp add: std_sort_sorted)
  have "sorted_wrt (\<lambda>a b. \<not> value_greater b a)
          (snd (TryFromValue_loop (std_sort value_greater (instances T)) v []))"
    by (rule TryFromValue_loop_sorted [OF s])
  moreover have "result = snd (TryFromValue_loop (std_sort value_greater (instances T)) v [])"
    using assms(2,3) by (auto simp: FromValue_unfold TryFromValue_unfold split: if_splits)
  ultimately show ?thesis
    by (simp add: value_greater_def signed.not_less)
qed

lemma ABC_instances:
  "instances ABC =
     [\<lparr>Name = ''A'', Value = 1\<rparr>, \<lparr>Name = ''B'', Value = 2\<rparr>, \<lparr>Name = ''C'', Value = 4\<rparr>]"
  by (simp add: ABC_def flag_eval)

lemma sort_ABC:
  assumes "is_std_sort std_sort value_greater"
  shows "std_sort value_greater (instances ABC) =
     [\<lparr>Name = ''C'', Value = 4\<rparr>, \<lparr>Name = ''B'', Value = 2\<rparr>, \<lparr>Name = ''A'', Value = 1\<rparr>]"
proof (rule sorted_wrt_unique [where R = "\<lambda>a b. \<not> value_greater b a"])
  show "mset (std_sort value_greater (instances ABC)) =
        mset [\<lparr>Name = ''C'', Value = 4\<rparr>, \<lparr>Name = ''B'', Value = 2\<rparr>,
              \<lparr>Name = ''A'', Value = 1\<rparr>]"
    using assms by (simp add: is_std_sort_def ABC_instances)
  show "sorted_wrt (\<lambda>a b. \<not> value_greater b a) (std_sort value_greater (instances ABC))"
    using assms by (rule std_sort_sorted)
  show "sorted_wrt (\<lambda>a b. \<not> value_greater b a)
          [\<lparr>Name = ''C'', Value = 4\<rparr>, \<lparr>Name = ''B'', Value = 2\<rparr>,
           \<lparr>Name = ''A'', Value = 1\<rparr>]"
    by (simp add: value_greater_def word_sless_alt)
  show "a = b"
    if "a \<in> set [\<lparr>Name = ''C'', Value = 4\<rparr>, \<lparr>Name = ''B'', Value = 2\<rparr>,
                  \<lparr>Name = ''A'', Value = 1\<rparr>]"
    and "b \<in> set [\<lparr>Name = ''C'', Value = 4\<rparr>, \<lparr>Name = ''B'', Value = 2\<rparr>,
                   \<lparr>Name = ''A'', Value = 1\<rparr>]"
    and "\<not> value_greater b a" and "\<not> value_greater a b" for a b
    using that by (auto simp: value_greater_def word_sless_alt)
qed

section \<open>The registry of \<open>SmartEnum\<close>\<close>

lemma enum_indexed_register:
  assumes "enum_indexed (cs, R)"
      and "SmartEnum_registerInstance x R = (Inr u, R')"
      and "Name x \<noteq> []"
  shows "enum_indexed (cs @ [x], R')"
proof -
  from assms(2) have free: "nameMap R (Name x) = None"
    by (auto simp: SmartEnum_registerInstance_def Let_def split: if_splits)
  with assms(1) have nf: "find (\<lambda>y. Name y = Name x) cs = None"
    by (simp add: enum_indexed_def)
  then have fresh: "Name x \<notin> Name ` set cs" by (auto simp: find_None_iff)
  from assms(2) free have
    nm: "nameMap R' = (nameMap R)(Name x \<mapsto> x)" and
    vm: "valueMap R' =
           (if valueMap R (Value x) = None then (valueMap R)(Value x \<mapsto> x) else valueMap R)"
    by (auto simp: SmartEnum_registerInstance_def Let_def split: if_splits)
  show ?thesis
    using assms(1,3) fresh nf unfolding enum_indexed_def
    by (auto simp: nm vm find_snoc split: option.splits)
qed

lemma enum_indexed_register_fail:
  assumes "enum_indexed (cs, R)" and "SmartEnum_registerInstance x R = (Inl e, R')"
  shows "enum_indexed (cs, R')"
proof -
  from assms(2) have "nameMap R' = nameMap R" and "valueMap R' = valueMap R"
    by (auto simp: SmartEnum_registerInstance_def Let_def split: if_splits)
  with assms(1) show ?thesis by (simp add: enum_indexed_def)
qed

lemma enum_indexed_construct:
  assumes "enum_indexed s"
  shows "enum_indexed (construct SmartEnum_ctor s d)"
proof (cases "fst d = []")
  case True
  with assms show ?thesis by (simp add: construct_def SmartEnum_ctor_def)
next
  case False
  let ?x = "\<lparr>Name = fst d, Value = snd d\<rparr>"
  obtain r R' where reg: "SmartEnum_registerInstance ?x (snd s) = (r, R')"
    by (cases "SmartEnum_registerInstance ?x (snd s)")
  from assms have s: "enum_indexed (fst s, snd s)" by simp
  show ?thesis
  proof (cases r)
    case (Inl e)
    with reg enum_indexed_register_fail [OF s] have "enum_indexed (fst s, R')" by blast
    with False reg Inl show ?thesis by (simp add: construct_def SmartEnum_ctor_def)
  next
    case (Inr u)
    with reg False enum_indexed_register [OF s, of ?x u R']
    have "enum_indexed (fst s @ [?x], R')" by simp
    with False reg Inr show ?thesis by (simp add: construct_def SmartEnum_ctor_def)
  qed
qed

lemma enum_indexed_foldl:
  "enum_indexed s \<Longrightarrow> enum_indexed (foldl (construct SmartEnum_ctor) s decls)"
  by (induction decls arbitrary: s) (simp_all add: enum_indexed_construct)

lemma enum_indexed_declare: "enum_indexed (declare_enum decls)"
  unfolding declare_enum_def
  by (rule enum_indexed_foldl) (simp add: enum_indexed_def new_smart_enum_def)

lemma find_distinct_key:
  "distinct (map f xs) \<Longrightarrow> x \<in> set xs \<Longrightarrow> find (\<lambda>y. f y = f x) xs = Some x"
  by (induction xs) (auto simp: image_iff)

lemma out_of_line_instances:
  "fst s = instances (snd s) \<Longrightarrow>
   fst (construct SmartEnum_ctor_out_of_line s d) =
   instances (snd (construct SmartEnum_ctor_out_of_line s d))"
  by (auto simp: construct_def SmartEnum_ctor_out_of_line_def registerInstance_def Let_def
      split: prod.splits sum.splits if_splits)

lemma out_of_line_foldl:
  "fst s = instances (snd s) \<Longrightarrow>
   fst (foldl (construct SmartEnum_ctor_out_of_line) s decls) =
   instances (snd (foldl (construct SmartEnum_ctor_out_of_line) s decls))"
  by (induction decls arbitrary: s) (simp_all add: out_of_line_instances)

lemma listInitFlag_construct:
  "listInitFlag (snd (construct SmartEnum_ctor s d)) = listInitFlag (snd s)"
  by (auto simp: construct_def SmartEnum_ctor_def SmartEnum_registerInstance_def Let_def
      split: prod.splits sum.splits if_splits)

lemma listInitFlag_foldl:
  "listInitFlag (snd (foldl (construct SmartEnum_ctor) s decls)) = listInitFlag (snd s)"
  by (induction decls arbitrary: s) (simp_all add: listInitFlag_construct)

text \<open>
  In \<open>include/SmartEnum.hpp\<close> the instance list holds every instance of non-empty
  name whose registration was tried; it is the list of the constructed instances
  when no name is declared twice.
\<close>

lemma construct_include_cases:
  "construct SmartEnum_ctor s d =
     (if fst d = [] then s
      else if nameMap (snd s) (fst d) \<noteq> None
        then (fst s, (snd s)\<lparr>instances := instances (snd s) @ [\<lparr>Name = fst d, Value = snd d\<rparr>]\<rparr>)
        else (fst s @ [\<lparr>Name = fst d, Value = snd d\<rparr>],
              snd (SmartEnum_registerInstance \<lparr>Name = fst d, Value = snd d\<rparr> (snd s))))"
  by (auto simp: construct_def SmartEnum_ctor_def SmartEnum_registerInstance_def Let_def
      split: prod.splits sum.splits)

lemma instances_register:
  "instances (snd (SmartEnum_registerInstance x R)) = instances R @ [x]"
  by (simp add: SmartEnum_registerInstance_def Let_def)

lemma instances_declare_enum:
  "instances (snd (declare_enum decls)) =
     map (\<lambda>d. \<lparr>Name = fst d, Value = snd d\<rparr>) (filter (\<lambda>d. fst d \<noteq> []) decls)"
proof (induction decls rule: rev_induct)
  case Nil
  then show ?case by (simp add: declare_enum_def new_smart_enum_def)
next
  case (snoc d decls)
  have "declare_enum (decls @ [d]) = construct SmartEnum_ctor (declare_enum decls) d"
    by (simp add: declare_enum_def)
  then show ?case using snoc
    by (simp add: construct_include_cases instances_register)
qed

lemma constructed_subset_instances:
  "set (fst (declare_enum decls)) \<subseteq> set (instances (snd (declare_enum decls)))"
proof (induction decls rule: rev_induct)
  case Nil
  then show ?case by (simp add: declare_enum_def)
next
  case (snoc d decls)
  have "declare_enum (decls @ [d]) = construct SmartEnum_ctor (declare_enum decls) d"
    by (simp add: declare_enum_def)
  then show ?case using snoc
    by (auto simp: construct_include_cases instances_register)
qed

lemma constructed_eq_instances:
  "distinct (map fst (filter (\<lambda>d. fst d \<noteq> []) decls)) \<Longrightarrow>
   fst (declare_enum decls) = instances (snd (declare_enum decls))"
proof (induction decls rule: rev_induct)
  case Nil
  then show ?case by (simp add: declare_enum_def new_smart_enum_def)
next
  case (snoc d decls)
  have step: "declare_enum (decls @ [d]) = construct SmartEnum_ctor (declare_enum decls) d"
    by (simp add: declare_enum_def)
  show ?case
  proof (cases "fst d = []")
    case True
    with snoc show ?thesis by (simp add: step construct_include_cases)
  next
    case False
    with snoc.prems have d: "distinct (map fst (filter (\<lambda>d. fst d \<noteq> []) decls))"
      and fresh: "fst d \<notin> fst ` set (filter (\<lambda>d. fst d \<noteq> []) decls)"
      by auto
    from snoc.IH [OF d] have eq: "fst (declare_enum decls) = instances (snd (declare_enum decls))" .
    have "nameMap (snd (declare_enum decls)) (fst d) =
            find (\<lambda>y. Name y = fst d) (fst (declare_enum decls))"
      using enum_indexed_declare [of decls] by (simp add: enum_indexed_def)
    also have "\<dots> = None"
      using fresh by (auto simp: eq instances_declare_enum find_None_iff image_iff)
    finally show ?thesis
      using False eq by (simp add: step construct_include_cases instances_register)
  qed
qed

section \<open>The claims\<close>

lemmas query_eval =
  SmartFlagEnum_FromValue_def SmartFlagEnum_TryFromValue_def SmartFlagEnum_List_def
  SmartFlagEnum_FromValueToString_def SmartFlagEnum_TryFromValueToString_def
  enforceFlagDefinitions_def isPowerOfTwo_def delete_nullptr_def fitsInDefinedFlags_def
  insertion_sort_def value_greater_def word_sless_alt

text \<open>
  C1. The claim: a flag type without the unsafe-values marker that declares a value that
  is not a power of two (and not 0 or -1), such as A=1, B=3, is constructed without
  error, and its first flag query fails with the not-power-of-two exception naming the
  instance. The code does not do that: both constructors succeed and \<open>List()\<close>, the
  first flag query, returns the two instances. The handler that throws the exception
  is never entered, because deleting a null pointer throws nothing.
\<close>

theorem not_power_of_two_is_not_reported:
  "instances A1_B3 = [\<lparr>Name = ''A'', Value = 1\<rparr>, \<lparr>Name = ''B'', Value = 3\<rparr>] \<and>
   fst (SmartFlagEnum_List A1_B3) =
     Inr [\<lparr>Name = ''A'', Value = 1\<rparr>, \<lparr>Name = ''B'', Value = 3\<rparr>]"
  by (simp add: A1_B3_def flag_eval query_eval)

text \<open>
  C2. The claim: for a flag type with the negative-input marker, \<open>FromValue(-1)\<close>
  returns exactly the declared instance of value -1 when there is one, and every
  registered instance of non-zero value when there is none. The first half holds on the
  type \<open>Flags\<close> of the tests. The second does not: with the marker and the instances
  A=1, B=2, \<open>TryFromValue(-1)\<close> returns false with an empty result and
  \<open>FromValue(-1)\<close> throws the parse exception. The marker is never read, and the
  negative value takes the \<open>return false\<close> behind the deletion of the null pointer.
\<close>

theorem minus_one_without_instance_fails:
  "AllowNegativeFlagEnumInput Flags \<and>
   fst (SmartFlagEnum_FromValue insertion_sort (- 1) Flags) =
     Inr [\<lparr>Name = ''All'', Value = - 1\<rparr>] \<and>
   AllowNegativeFlagEnumInput Negative_A1_B2 \<and>
   instances Negative_A1_B2 = [\<lparr>Name = ''A'', Value = 1\<rparr>, \<lparr>Name = ''B'', Value = 2\<rparr>] \<and>
   fst (SmartFlagEnum_TryFromValue insertion_sort (- 1) Negative_A1_B2) = Inr (False, []) \<and>
   fst (SmartFlagEnum_FromValue insertion_sort (- 1) Negative_A1_B2) =
     Inl InvalidFlagEnumValueParseException"
  by (simp add: Flags_def Negative_A1_B2_def flag_eval query_eval)

text \<open>
  C3. When the queried value is the value of a registered instance, \<open>FromValue\<close> and
  \<open>TryFromValue\<close> return one instance only, the first registered instance with that
  value, and do not decompose the value into bits.
\<close>

theorem exact_match_returns_single_instance:
  assumes "inst \<in> set (instances (declare_flags neg unsafe decls))"
  shows "\<exists>first.
           find (\<lambda>i. Value i = Value inst) (instances (declare_flags neg unsafe decls)) =
             Some first \<and>
           Value first = Value inst \<and>
           fst (SmartFlagEnum_TryFromValue std_sort (Value inst)
                 (declare_flags neg unsafe decls)) = Inr (True, [first]) \<and>
           fst (SmartFlagEnum_FromValue std_sort (Value inst)
                 (declare_flags neg unsafe decls)) = Inr [first]"
proof -
  let ?T = "declare_flags neg unsafe decls"
  from assms obtain first
    where f: "find (\<lambda>i. Value i = Value inst) (instances ?T) = Some first"
    by (cases "find (\<lambda>i. Value i = Value inst) (instances ?T)") (auto simp: find_None_iff)
  then have v: "Value first = Value inst" by (auto simp: find_Some_iff)
  have m: "valueMap ?T (Value inst) = Some first"
    using f by (simp add: valueMap_declare_flags)
  show ?thesis
    using f v m by (simp add: FromValue_unfold TryFromValue_unfold)
qed

theorem exact_match_returns_single_instance_witness:
  "\<lparr>Name = ''AB'', Value = 3\<rparr> \<in> set (instances Flags) \<and>
   fst (SmartFlagEnum_FromValue insertion_sort 3 Flags) = Inr [\<lparr>Name = ''AB'', Value = 3\<rparr>]"
  using exact_match_returns_single_instance [of "\<lparr>Name = ''AB'', Value = 3\<rparr>" True False
      "[(''None'', 0), (''A'', 1), (''B'', 2), (''C'', 4), (''AB'', 3), (''All'', - 1)]"
      insertion_sort]
  by (simp add: Flags_def flag_eval)

text \<open>
  C4. When \<open>FromValue(v)\<close> succeeds without an exact match, the returned instances are
  in descending order of value and \<open>FromValueToString(v)\<close> is their names joined by
  \<open>", "\<close> in that order. For the strict flags A=1, B=2, C=4, \<open>FromValue(3)\<close> is B, A and
  \<open>FromValueToString(3)\<close> is \<open>"B, A"\<close>.
\<close>

theorem decomposition_is_descending_and_joined:
  assumes "is_std_sort std_sort value_greater"
  shows "(valueMap T v = None \<and> SmartFlagEnum_FromValue std_sort v T = (Inr result, T') \<longrightarrow>
            sorted_wrt (\<lambda>a b. Value b \<le>s Value a) result \<and>
            SmartFlagEnum_FromValueToString std_sort v T = (Inr (join_names result), T')) \<and>
         fst (SmartFlagEnum_FromValue std_sort 3 ABC) =
           Inr [\<lparr>Name = ''B'', Value = 2\<rparr>, \<lparr>Name = ''A'', Value = 1\<rparr>] \<and>
         fst (SmartFlagEnum_FromValueToString std_sort 3 ABC) = Inr ''B, A''"
proof -
  have general: "sorted_wrt (\<lambda>a b. Value b \<le>s Value a) result \<and>
      SmartFlagEnum_FromValueToString std_sort v T = (Inr (join_names result), T')"
    if "valueMap T v = None" and "SmartFlagEnum_FromValue std_sort v T = (Inr result, T')"
    using that decomposition_descending [OF assms] FromValueToString_of_FromValue by blast
  have nomatch: "valueMap ABC 3 = None" by (simp add: ABC_def flag_eval)
  have fits: "fitsInDefinedFlags ABC 3" by (simp add: fitsInDefinedFlags_def ABC_instances)
  have loop: "TryFromValue_loop (std_sort value_greater (instances ABC)) 3 [] =
      (0, [\<lparr>Name = ''B'', Value = 2\<rparr>, \<lparr>Name = ''A'', Value = 1\<rparr>])"
    by (simp add: sort_ABC [OF assms])
  have fv: "SmartFlagEnum_FromValue std_sort 3 ABC =
      (Inr [\<lparr>Name = ''B'', Value = 2\<rparr>, \<lparr>Name = ''A'', Value = 1\<rparr>],
       ABC\<lparr>definitionsValidated := True\<rparr>)"
    using nomatch fits loop by (simp add: FromValue_unfold TryFromValue_unfold word_sless_alt)
  have "SmartFlagEnum_FromValueToString std_sort 3 ABC =
      (Inr (join_names [\<lparr>Name = ''B'', Value = 2\<rparr>, \<lparr>Name = ''A'', Value = 1\<rparr>]),
       ABC\<lparr>definitionsValidated := True\<rparr>)"
    using fv by (rule FromValueToString_of_FromValue)
  then have "fst (SmartFlagEnum_FromValueToString std_sort 3 ABC) = Inr ''B, A''" by simp
  with general fv show ?thesis by simp
qed

theorem decomposition_is_descending_and_joined_witness:
  "is_std_sort insertion_sort value_greater \<and>
   valueMap Flags 5 = None \<and>
   fst (SmartFlagEnum_FromValue insertion_sort 5 Flags) =
     Inr [\<lparr>Name = ''C'', Value = 4\<rparr>, \<lparr>Name = ''A'', Value = 1\<rparr>] \<and>
   sorted_wrt (\<lambda>a b. Value b \<le>s Value a)
     [\<lparr>Name = ''C'', Value = 4\<rparr>, \<lparr>Name = ''A'', Value = 1\<rparr>] \<and>
   fst (SmartFlagEnum_FromValueToString insertion_sort 5 Flags) = Inr ''C, A'' \<and>
   fst (SmartFlagEnum_FromValueToString insertion_sort 3 ABC) = Inr ''B, A''"
proof -
  have ev: "SmartFlagEnum_FromValue insertion_sort 5 Flags =
      (Inr [\<lparr>Name = ''C'', Value = 4\<rparr>, \<lparr>Name = ''A'', Value = 1\<rparr>],
       Flags\<lparr>definitionsValidated := True\<rparr>)"
    by (simp add: Flags_def flag_eval query_eval)
  have nomatch: "valueMap Flags 5 = None" by (simp add: Flags_def flag_eval)
  show ?thesis
    using insertion_sort_value_greater nomatch ev
      decomposition_is_descending_and_joined [OF insertion_sort_value_greater,
        of Flags 5 "[\<lparr>Name = ''C'', Value = 4\<rparr>, \<lparr>Name = ''A'', Value = 1\<rparr>]"
           "Flags\<lparr>definitionsValidated := True\<rparr>"]
    by simp
qed

text \<open>
  C5. The claim: for a flag type without the unsafe-values marker whose powers of two,
  in ascending order, are not 1, 2, 4, ... without a gap, such as A=1, C=4, the first
  flag query fails with a missing-flag error naming the missing bit. The code does not
  do that: the validator tests each value for being a power of two and nothing else,
  so it passes A=1, C=4 and \<open>List()\<close>, the first flag query, returns the two instances.
\<close>

theorem missing_flag_is_not_reported:
  "\<not> AllowUnsafeFlagEnumValues A1_C4 \<and>
   instances A1_C4 = [\<lparr>Name = ''A'', Value = 1\<rparr>, \<lparr>Name = ''C'', Value = 4\<rparr>] \<and>
   enforceFlagDefinitions A1_C4 = (Inr (), A1_C4\<lparr>definitionsValidated := True\<rparr>) \<and>
   fst (SmartFlagEnum_List A1_C4) =
     Inr [\<lparr>Name = ''A'', Value = 1\<rparr>, \<lparr>Name = ''C'', Value = 4\<rparr>]"
  by (simp add: A1_C4_def flag_eval query_eval)

text \<open>
  C6, as the code has it. When every declared value is zero or a power of two, a
  queried value that is not negative and passes the coverage check is decomposed with
  remainder zero, and \<open>TryFromValue\<close> succeeds. With a declared -1 or a declared
  combination the coverage check can pass and the remainder stay non-zero.
\<close>

theorem coverage_drives_remainder_to_zero:
  assumes "is_std_sort std_sort value_greater"
      and "\<forall>i \<in> set (instances T). Value i = 0 \<or> isPowerOfTwo (Value i)"
      and "\<not> v <s 0"
      and "fitsInDefinedFlags T v"
  shows "fst (TryFromValue_loop (std_sort value_greater (instances T)) v []) = 0 \<and>
         (\<exists>outResult. fst (SmartFlagEnum_TryFromValue std_sort v T) = Inr (True, outResult))"
  using greedy_remainder_zero [OF assms(1,2,4)] assms(3,4)
  by (simp add: TryFromValue_unfold split: option.splits)

theorem coverage_drives_remainder_to_zero_witness:
  "is_std_sort insertion_sort value_greater \<and>
   (\<forall>i \<in> set (instances ABC). Value i = 0 \<or> isPowerOfTwo (Value i)) = True \<and>
   \<not> (6 :: value_t) <s 0 \<and> fitsInDefinedFlags ABC 6 \<and>
   fst (TryFromValue_loop (insertion_sort value_greater (instances ABC)) 6 []) = 0 \<and>
   fst (SmartFlagEnum_TryFromValue insertion_sort 6 ABC) =
     Inr (True, [\<lparr>Name = ''C'', Value = 4\<rparr>, \<lparr>Name = ''B'', Value = 2\<rparr>])"
proof -
  have p: "\<forall>i \<in> set (instances ABC). Value i = 0 \<or> isPowerOfTwo (Value i)"
    by (simp add: ABC_instances isPowerOfTwo_def word_sless_alt)
  have n: "\<not> (6 :: value_t) <s 0" by (simp add: word_sless_alt)
  have f: "fitsInDefinedFlags ABC 6" by (simp add: fitsInDefinedFlags_def ABC_instances)
  have e: "fst (SmartFlagEnum_TryFromValue insertion_sort 6 ABC) =
     Inr (True, [\<lparr>Name = ''C'', Value = 4\<rparr>, \<lparr>Name = ''B'', Value = 2\<rparr>])"
    by (simp add: ABC_def flag_eval query_eval)
  show ?thesis
    using insertion_sort_value_greater p n f e
      coverage_drives_remainder_to_zero [OF insertion_sort_value_greater p n f]
    by simp
qed

text \<open>
  The claim of C6 fails on the type \<open>Flags\<close> of the tests at the value 8: the declared
  -1 makes the coverage check pass, no flag is contained in 8, the remainder stays 8
  and \<open>TryFromValue\<close> returns false.
\<close>

theorem leftover_remainder_counterexample:
  "fitsInDefinedFlags Flags 8 \<and>
   fst (TryFromValue_loop (insertion_sort value_greater (instances Flags)) 8 []) = 8 \<and>
   fst (SmartFlagEnum_TryFromValue insertion_sort 8 Flags) =
     Inr (False, [\<lparr>Name = ''None'', Value = 0\<rparr>])"
  by (simp add: Flags_def flag_eval query_eval)

text \<open>
  C7. The claim: for a flag type without the negative-input marker, \<open>FromValue\<close> of a
  negative value without an exact match fails with the negative-value exception, and
  \<open>TryFromValue\<close> reports failure. On the type \<open>NoNegFlags\<close> of the tests and the
  value -5, \<open>TryFromValue\<close> returns false, and \<open>FromValue\<close> throws the parse exception,
  not the negative-value exception: the handler that throws it is never entered.
\<close>

theorem negative_value_raises_parse_exception:
  "\<not> AllowNegativeFlagEnumInput NoNegFlags \<and>
   fst (SmartFlagEnum_TryFromValue insertion_sort (- 5) NoNegFlags) = Inr (False, []) \<and>
   fst (SmartFlagEnum_FromValue insertion_sort (- 5) NoNegFlags) =
     Inl InvalidFlagEnumValueParseException"
  by (simp add: NoNegFlags_def flag_eval query_eval)

text \<open>
  C8, as the code has it. \<open>List()\<close> of the out-of-line \<open>SmartEnum.hpp\<close> returns the
  registered instances in registration order. The first \<open>List()\<close> of
  \<open>include/SmartEnum.hpp\<close> sorts the instance list by name: its result is in ascending
  order of name, holds every registered instance, and, when no name is declared twice,
  is a permutation of the registered instances.
\<close>

theorem List_order:
  assumes "is_std_sort std_sort name_less"
  shows "SmartEnum_List_out_of_line (snd (declare_enum_out_of_line decls)) =
           fst (declare_enum_out_of_line decls) \<and>
         set (fst (declare_enum decls)) \<subseteq>
           set (fst (SmartEnum_List std_sort (snd (declare_enum decls)))) \<and>
         sorted_wrt (\<lambda>a b. Name a \<le> Name b)
           (fst (SmartEnum_List std_sort (snd (declare_enum decls)))) \<and>
         (distinct (map fst (filter (\<lambda>d. fst d \<noteq> []) decls)) \<longrightarrow>
            mset (fst (SmartEnum_List std_sort (snd (declare_enum decls)))) =
              mset (fst (declare_enum decls)))"
proof -
  have 1: "SmartEnum_List_out_of_line (snd (declare_enum_out_of_line decls)) =
           fst (declare_enum_out_of_line decls)"
    unfolding declare_enum_out_of_line_def SmartEnum_List_out_of_line_def
    by (rule out_of_line_foldl [symmetric]) (simp add: new_smart_enum_def)
  have "\<not> listInitFlag (snd (declare_enum decls))"
    by (simp add: declare_enum_def listInitFlag_foldl new_smart_enum_def)
  then have l: "fst (SmartEnum_List std_sort (snd (declare_enum decls))) =
      std_sort name_less (instances (snd (declare_enum decls)))"
    by (simp add: SmartEnum_List_def)
  have 2: "set (fst (declare_enum decls)) \<subseteq>
      set (std_sort name_less (instances (snd (declare_enum decls))))"
    using constructed_subset_instances [of decls] std_sort_set [OF assms] by simp
  have "sorted_wrt (\<lambda>a b. \<not> name_less b a)
          (std_sort name_less (instances (snd (declare_enum decls))))"
    using assms by (rule std_sort_sorted)
  then have 3: "sorted_wrt (\<lambda>a b. Name a \<le> Name b)
                  (std_sort name_less (instances (snd (declare_enum decls))))"
    by (simp add: name_less_def not_less)
  have 4: "mset (std_sort name_less (instances (snd (declare_enum decls)))) =
             mset (fst (declare_enum decls))"
    if "distinct (map fst (filter (\<lambda>d. fst d \<noteq> []) decls))"
    using constructed_eq_instances [OF that] assms by (simp add: is_std_sort_def)
  show ?thesis using 1 2 3 4 by (simp add: l)
qed

theorem List_order_witness:
  "is_std_sort insertion_sort name_less \<and>
   distinct (map fst (filter (\<lambda>d. fst d \<noteq> []) [(''One'', 1 :: value_t), (''Two'', 2), (''Three'', 3)])) \<and>
   SmartEnum_List_out_of_line
     (snd (declare_enum_out_of_line [(''One'', 1), (''Two'', 2), (''Three'', 3)])) =
     [\<lparr>Name = ''One'', Value = 1\<rparr>, \<lparr>Name = ''Two'', Value = 2\<rparr>,
      \<lparr>Name = ''Three'', Value = 3\<rparr>] \<and>
   sorted_wrt (\<lambda>a b. Name a \<le> Name b) (fst (SmartEnum_List insertion_sort (snd TestEnum))) \<and>
   mset (fst (SmartEnum_List insertion_sort (snd TestEnum))) = mset (fst TestEnum)"
proof -
  have d: "distinct (map fst (filter (\<lambda>d. fst d \<noteq> [])
             [(''One'', 1 :: value_t), (''Two'', 2), (''Three'', 3)]))"
    by simp
  have o: "fst (declare_enum_out_of_line [(''One'', 1), (''Two'', 2), (''Three'', 3)]) =
     [\<lparr>Name = ''One'', Value = 1\<rparr>, \<lparr>Name = ''Two'', Value = 2\<rparr>,
      \<lparr>Name = ''Three'', Value = 3\<rparr>]"
    by (simp add: enum_eval)
  show ?thesis
    using insertion_sort_name_less d o
      List_order [OF insertion_sort_name_less, of "[(''One'', 1), (''Two'', 2), (''Three'', 3)]"]
    by (simp add: TestEnum_def)
qed

text \<open>
  The claim of C8 fails for \<open>include/SmartEnum.hpp\<close> on the type \<open>TestEnum\<close> of the
  tests: One, Two, Three are registered in this order and \<open>List()\<close> returns One, Three,
  Two.
\<close>

theorem List_registration_order_counterexample:
  "fst TestEnum =
     [\<lparr>Name = ''One'', Value = 1\<rparr>, \<lparr>Name = ''Two'', Value = 2\<rparr>,
      \<lparr>Name = ''Three'', Value = 3\<rparr>] \<and>
   fst (SmartEnum_List insertion_sort (snd TestEnum)) =
     [\<lparr>Name = ''One'', Value = 1\<rparr>, \<lparr>Name = ''Three'', Value = 3\<rparr>,
      \<lparr>Name = ''Two'', Value = 2\<rparr>]"
  by (simp add: TestEnum_def enum_eval SmartEnum_List_def insertion_sort_def name_less_def)

text \<open>
  C9, as the code has it. For every instance \<open>x\<close> whose constructor returned,
  \<open>FromName(x.Name())\<close> returns \<open>x\<close>, and \<open>FromValue(x.Value())\<close> returns the first
  registered instance with the value of \<open>x\<close>: an instance of equal value, and \<open>x\<close>
  itself when no other registered instance has its value.
\<close>

theorem name_and_value_lookup:
  assumes "declare_enum decls = (constructed, R)" and "x \<in> set constructed"
  shows "SmartEnum_FromName (Name x) False R = Inr x \<and>
         (\<exists>first. find (\<lambda>y. Value y = Value x) constructed = Some first \<and>
                  Value first = Value x \<and> SmartEnum_FromValue (Value x) R = Inr first) \<and>
         ((\<forall>y \<in> set constructed. Value y = Value x \<longrightarrow> y = x) \<longrightarrow>
            SmartEnum_FromValue (Value x) R = Inr x)"
proof -
  have inv: "enum_indexed (constructed, R)"
    using enum_indexed_declare [of decls] assms(1) by simp
  then have nm: "nameMap R (Name x) = find (\<lambda>y. Name y = Name x) constructed"
    and vm: "valueMap R (Value x) = find (\<lambda>y. Value y = Value x) constructed"
    and d: "distinct (map Name constructed)" and ne: "Name x \<noteq> []"
    using assms(2) by (auto simp: enum_indexed_def)
  from d assms(2) have "find (\<lambda>y. Name y = Name x) constructed = Some x"
    by (rule find_distinct_key)
  with nm ne have 1: "SmartEnum_FromName (Name x) False R = Inr x"
    by (simp add: SmartEnum_FromName_def TryFromNameInternal_def)
  from assms(2) obtain first
    where f: "find (\<lambda>y. Value y = Value x) constructed = Some first"
    by (cases "find (\<lambda>y. Value y = Value x) constructed") (auto simp: find_None_iff)
  then have fv: "Value first = Value x" and fin: "first \<in> set constructed"
    by (auto simp: find_Some_iff)
  from f vm have 2: "SmartEnum_FromValue (Value x) R = Inr first"
    by (simp add: SmartEnum_FromValue_def TryFromValueInternal_def)
  show ?thesis using 1 2 f fv fin by auto
qed

theorem name_and_value_lookup_witness:
  "\<lparr>Name = ''Three'', Value = 3\<rparr> \<in> set (fst TestEnum) \<and>
   SmartEnum_FromName ''Three'' False (snd TestEnum) = Inr \<lparr>Name = ''Three'', Value = 3\<rparr> \<and>
   SmartEnum_FromValue 3 (snd TestEnum) = Inr \<lparr>Name = ''Three'', Value = 3\<rparr>"
proof -
  have d: "declare_enum [(''One'', 1), (''Two'', 2), (''Three'', 3)] = (fst TestEnum, snd TestEnum)"
    by (simp add: TestEnum_def)
  have m: "\<lparr>Name = ''Three'', Value = 3\<rparr> \<in> set (fst TestEnum)"
    by (simp add: TestEnum_def enum_eval)
  have u: "\<forall>y \<in> set (fst TestEnum).
             Value y = Value \<lparr>Name = ''Three'', Value = 3\<rparr> \<longrightarrow>
             y = \<lparr>Name = ''Three'', Value = 3\<rparr>"
    by (simp add: TestEnum_def enum_eval)
  from name_and_value_lookup [OF d m] u
  have "SmartEnum_FromName (Name \<lparr>Name = ''Three'', Value = 3\<rparr>) False (snd TestEnum) =
          Inr \<lparr>Name = ''Three'', Value = 3\<rparr> \<and>
        SmartEnum_FromValue (Value \<lparr>Name = ''Three'', Value = 3\<rparr>) (snd TestEnum) =
          Inr \<lparr>Name = ''Three'', Value = 3\<rparr>"
    by blast
  with m show ?thesis by simp
qed

text \<open>
  The claim of C9 fails where two instances share a value: X=1 and Y=1 are both
  registered, and \<open>FromValue(Y.Value())\<close> returns X.
\<close>

theorem value_roundtrip_counterexample:
  "\<lparr>Name = ''Y'', Value = 1\<rparr> \<in> set (fst X1_Y1) \<and>
   SmartEnum_FromValue (Value \<lparr>Name = ''Y'', Value = 1\<rparr>) (snd X1_Y1) =
     Inr \<lparr>Name = ''X'', Value = 1\<rparr>"
  by (simp add: X1_Y1_def enum_eval SmartEnum_FromValue_def TryFromValueInternal_def)

text \<open>
  C10. For a flag type with no instance of value zero that passes the validator,
  \<open>TryFromValue(0)\<close> succeeds with the empty list and \<open>TryFromValueToString(0)\<close>
  succeeds with the empty string.
\<close>

theorem zero_without_zero_instance:
  assumes "is_std_sort std_sort value_greater"
      and "\<forall>i \<in> set (instances (declare_flags neg unsafe decls)). Value i \<noteq> 0"
      and "fst (enforceFlagDefinitions (declare_flags neg unsafe decls)) = Inr ()"
  shows "fst (SmartFlagEnum_TryFromValue std_sort 0 (declare_flags neg unsafe decls)) =
           Inr (True, []) \<and>
         fst (SmartFlagEnum_TryFromValueToString std_sort 0 outStr
               (declare_flags neg unsafe decls)) = Inr (True, [])"
proof -
  let ?T = "declare_flags neg unsafe decls"
  have m: "valueMap ?T 0 = None"
    using assms(2) by (simp add: valueMap_declare_flags find_None_iff)
  have "set (std_sort value_greater (instances ?T)) = set (instances ?T)"
    using assms(1) by (rule std_sort_set)
  with assms(2) have "TryFromValue_loop (std_sort value_greater (instances ?T)) 0 [] = (0, [])"
    by (intro TryFromValue_loop_zero) simp
  moreover have "fitsInDefinedFlags ?T 0" by (simp add: fitsInDefinedFlags_def)
  ultimately have "fst (SmartFlagEnum_TryFromValue std_sort 0 ?T) = Inr (True, [])"
    using m by (simp add: TryFromValue_unfold)
  then show ?thesis
    by (auto simp: SmartFlagEnum_TryFromValueToString_def split: prod.splits sum.splits)
qed

theorem zero_without_zero_instance_witness:
  "is_std_sort insertion_sort value_greater \<and>
   (\<forall>i \<in> set (instances ABC). Value i \<noteq> 0) = True \<and>
   fst (enforceFlagDefinitions ABC) = Inr () \<and>
   fst (SmartFlagEnum_TryFromValue insertion_sort 0 ABC) = Inr (True, []) \<and>
   fst (SmartFlagEnum_TryFromValueToString insertion_sort 0 ''unchanged'' ABC) = Inr (True, [])"
proof -
  have z: "\<forall>i \<in> set (instances (declare_flags False False [(''A'', 1), (''B'', 2), (''C'', 4)])).
             Value i \<noteq> 0"
    using ABC_instances by (simp add: ABC_def)
  have e: "fst (enforceFlagDefinitions
                 (declare_flags False False [(''A'', 1), (''B'', 2), (''C'', 4)])) = Inr ()"
    by (simp add: flag_eval enforceFlagDefinitions_def isPowerOfTwo_def word_sless_alt)
  show ?thesis
    using insertion_sort_value_greater z e
      zero_without_zero_instance [OF insertion_sort_value_greater z e, of "''unchanged''"]
    by (simp add: ABC_def)
qed

end
